theory Spec2Isabelle
  imports Main
begin

section \<open>Subsampling an LJSpeech dataset: a model of subsample.py\<close>

text \<open>
  The program reads \<open>metadata.csv\<close> under a source root, draws a seeded random sample
  of its records, writes the sampled records to \<open>metadata.csv\<close> under a destination
  root and places the audio file of every sampled record under \<open>wavs/\<close> there, by
  hardlink or by copy.

  Strings are lists of characters; a character stands for a code point below 256.
  A path is the list of its components. The file system maps a path to what is there.
\<close>

subsection \<open>Python's string operations\<close>

abbreviation pipe :: char where "pipe \<equiv> CHR ''|''"
abbreviation dquote :: char where "dquote \<equiv> CHR 0x22"
abbreviation LF :: char where "LF \<equiv> CHR 0x0A"
abbreviation CR :: char where "CR \<equiv> CHR 0x0D"

text \<open>\<open>str.isspace\<close> on one character: tab to carriage return, the four separators
  0x1C to 0x1F, the space, NEL (0x85) and the no-break space (0xA0).\<close>

definition isspace :: "char \<Rightarrow> bool" where
  "isspace c = (let n = of_char c :: nat in
     (9 \<le> n \<and> n \<le> 13) \<or> (28 \<le> n \<and> n \<le> 32) \<or> n = 133 \<or> n = 160)"

text \<open>\<open>line.strip()\<close>: whitespace is dropped at both ends.\<close>

definition strip :: "string \<Rightarrow> string" where
  "strip s = rev (dropWhile isspace (rev (dropWhile isspace s)))"

text \<open>\<open>s.split(sep, maxsplit)\<close> for a one-character separator: the string is cut at
  the first \<open>maxsplit\<close> separators, and the rest is the last part.\<close>

definition split_first :: "char \<Rightarrow> string \<Rightarrow> (string \<times> string) option" where
  "split_first sep s =
     (if sep \<in> set s
      then Some (takeWhile (\<lambda>c. c \<noteq> sep) s, tl (dropWhile (\<lambda>c. c \<noteq> sep) s))
      else None)"

fun py_split :: "char \<Rightarrow> nat \<Rightarrow> string \<Rightarrow> string list" where
  "py_split sep 0 s = [s]"
| "py_split sep (Suc k) s =
     (case split_first sep s of
        None \<Rightarrow> [s]
      | Some (a, rest) \<Rightarrow> a # py_split sep k rest)"

text \<open>Reading a text file with universal newlines: \<open>\r\n\<close> and a lone \<open>\r\<close> become
  \<open>\n\<close>, and iterating the file yields its lines, each with its \<open>\n\<close>; a last line that
  does not end in \<open>\n\<close> is yielded as it is.\<close>

fun universal_newlines :: "string \<Rightarrow> string" where
  "universal_newlines [] = []"
| "universal_newlines [c] = (if c = CR then [LF] else [c])"
| "universal_newlines (c # d # ds) =
     (if c = CR \<and> d = LF then LF # universal_newlines ds
      else if c = CR then LF # universal_newlines (d # ds)
      else c # universal_newlines (d # ds))"

fun lines_from :: "string \<Rightarrow> string \<Rightarrow> string list" where
  "lines_from cur [] = (if cur = [] then [] else [cur])"
| "lines_from cur (c # cs) =
     (if c = LF then (cur @ [c]) # lines_from [] cs else lines_from (cur @ [c]) cs)"

definition file_lines :: "string \<Rightarrow> string list" where
  "file_lines content = lines_from [] (universal_newlines content)"

subsection \<open>The metadata reader\<close>

type_synonym row = "string \<times> string \<times> string"

text \<open>The body of the loop of \<open>read_metadata\<close> on one line: \<open>None\<close> is \<open>continue\<close>,
  \<open>Some r\<close> is \<open>rows.append(r)\<close>.\<close>

definition parse_line :: "string \<Rightarrow> row option" where
  "parse_line line0 =
     (let line = strip line0 in
      if line = [] then None
      else
        let parts = py_split pipe 2 line in
        if length parts < 3 then
          (if length parts = 2 then
             (let parts = parts @ [parts ! 1] in Some (parts ! 0, parts ! 1, parts ! 2))
           else None)
        else Some (parts ! 0, parts ! 1, parts ! 2))"

fun read_lines :: "string list \<Rightarrow> row list \<Rightarrow> row list" where
  "read_lines [] rows = rows"
| "read_lines (line # rest) rows =
     (case parse_line line of
        None \<Rightarrow> read_lines rest rows
      | Some r \<Rightarrow> read_lines rest (rows @ [r]))"

text \<open>\<open>read_metadata\<close> on the content of the file at \<open>meta_path\<close>.\<close>

definition read_metadata :: "string \<Rightarrow> row list" where
  "read_metadata content = read_lines (file_lines content) []"

subsection \<open>Paths, the file system, the console\<close>

type_synonym path = "string list"

datatype node = File string | Dir

type_synonym filesystem = "path \<Rightarrow> node option"

definition exists_path :: "filesystem \<Rightarrow> path \<Rightarrow> bool" where
  "exists_path f p = (f p \<noteq> None)"

definition is_file :: "filesystem \<Rightarrow> path \<Rightarrow> bool" where
  "is_file f p = (case f p of Some (File c) \<Rightarrow> True | _ \<Rightarrow> False)"

definition is_dir :: "filesystem \<Rightarrow> path \<Rightarrow> bool" where
  "is_dir f p = (case f p of Some Dir \<Rightarrow> True | _ \<Rightarrow> False)"

definition read_text :: "filesystem \<Rightarrow> path \<Rightarrow> string" where
  "read_text f p = (case f p of Some (File c) \<Rightarrow> c | _ \<Rightarrow> [])"

text \<open>\<open>p.mkdir(parents=True, exist_ok=True)\<close>: every missing non-empty prefix of \<open>p\<close>
  becomes a directory; what exists stays. The destination is taken to be writable:
  the model has no failing \<open>mkdir\<close> and no failing \<open>open(..., "w")\<close>.\<close>

definition mkdir_parents :: "path \<Rightarrow> filesystem \<Rightarrow> filesystem" where
  "mkdir_parents p f =
     (\<lambda>q. if f q = None \<and> q \<noteq> [] \<and> take (length q) p = q then Some Dir else f q)"

fun join :: "string \<Rightarrow> string list \<Rightarrow> string" where
  "join sep [] = []"
| "join sep [x] = x"
| "join sep (x # y # ys) = x @ sep @ join sep (y # ys)"

text \<open>A path in an f-string: its components with \<open>/\<close> between them.\<close>

definition str_path :: "path \<Rightarrow> string" where
  "str_path p = join ''/'' p"

fun str_nat :: "nat \<Rightarrow> string" where
  "str_nat n =
     (if n < 10 then [''0123456789'' ! n]
      else str_nat (n div 10) @ [''0123456789'' ! (n mod 10)])"

definition str_int :: "int \<Rightarrow> string" where
  "str_int i = (if i < 0 then ''-'' @ str_nat (nat (- i)) else str_nat (nat i))"

text \<open>A transfer attempt: \<open>os.link(src, dst)\<close> or \<open>shutil.copy2(src, dst)\<close>.\<close>

datatype op = Link path path | Copy2 path path

fun op_src :: "op \<Rightarrow> path" where
  "op_src (Link s d) = s"
| "op_src (Copy2 s d) = s"

fun op_dst :: "op \<Rightarrow> path" where
  "op_dst (Link s d) = d"
| "op_dst (Copy2 s d) = d"

fun is_link :: "op \<Rightarrow> bool" where
  "is_link (Link s d) = True"
| "is_link (Copy2 s d) = False"

text \<open>The state of a run: the file system, the lines printed, the transfer attempts
  made so far (a log kept by the model, oldest first) and the counter \<open>errors\<close> of
  \<open>main\<close>.\<close>

record state =
  fs :: filesystem
  console :: "string list"
  ops :: "op list"
  errors :: nat

definition print_line :: "string \<Rightarrow> state \<Rightarrow> state" where
  "print_line l st = st\<lparr>console := console st @ [l]\<rparr>"

text \<open>Whether a transfer fails is up to the machine the program runs on. The fault table
  says, for the number of attempts made before and the attempt, \<open>None\<close> when it
  succeeds and \<open>Some msg\<close> when it raises an exception whose text is \<open>msg\<close>. A
  transfer that succeeds puts what is at \<open>src\<close> at \<open>dst\<close>; one that fails leaves
  the file system as it was.\<close>

type_synonym faults = "nat \<Rightarrow> op \<Rightarrow> string option"

definition perform :: "faults \<Rightarrow> op \<Rightarrow> state \<Rightarrow> string option \<times> state" where
  "perform env x st =
     (case env (length (ops st)) x of
        None \<Rightarrow> (None, st\<lparr>fs := (fs st)(op_dst x := fs st (op_src x)), ops := ops st @ [x]\<rparr>)
      | Some msg \<Rightarrow> (Some msg, st\<lparr>ops := ops st @ [x]\<rparr>))"

definition os_link :: "faults \<Rightarrow> path \<Rightarrow> path \<Rightarrow> state \<Rightarrow> string option \<times> state" where
  "os_link env s d st = perform env (Link s d) st"

definition shutil_copy2 :: "faults \<Rightarrow> path \<Rightarrow> path \<Rightarrow> state \<Rightarrow> string option \<times> state" where
  "shutil_copy2 env s d st = perform env (Copy2 s d) st"

subsection \<open>The sampler\<close>

datatype error =
    AssertionError string | SystemExit string | ValueError | IndexError
  | OSError string | UnicodeDecodeError

datatype outcome = Done | Abort error

text \<open>The generator of Python's \<open>random\<close> module is a parameter: \<open>g seed N k\<close> is the
  list that \<open>random.seed(seed)\<close> followed by \<open>random.sample(range(N), k)\<close> returns.
  \<open>random.sample\<close> raises \<open>ValueError\<close> when \<open>k\<close> is negative or larger than the
  population.\<close>

type_synonym sampler = "int \<Rightarrow> nat \<Rightarrow> nat \<Rightarrow> nat list"

definition random_sample :: "sampler \<Rightarrow> int \<Rightarrow> nat \<Rightarrow> int \<Rightarrow> error + nat list" where
  "random_sample g s total_rows k =
     (if k < 0 \<or> int total_rows < k then Inl ValueError else Inr (g s total_rows (nat k)))"

text \<open>What \<open>random.sample\<close> promises of its result: \<open>k\<close> positions of the population,
  no position twice.\<close>

definition sample_ok :: "nat list \<Rightarrow> nat \<Rightarrow> nat \<Rightarrow> bool" where
  "sample_ok xs total_rows k =
     (length xs = k \<and> distinct xs \<and> list_all (\<lambda>i. i < total_rows) xs)"

text \<open>\<open>[rows[i] for i in indices]\<close>; an index past the end raises \<open>IndexError\<close>.\<close>

definition select_rows :: "row list \<Rightarrow> nat list \<Rightarrow> error + row list" where
  "select_rows rows indices =
     (if list_all (\<lambda>i. i < length rows) indices
      then Inr (map (\<lambda>i. rows ! i) indices)
      else Inl IndexError)"

subsection \<open>The metadata writer\<close>

text \<open>\<open>csv.writer(f, delimiter="|")\<close> with the defaults of the \<open>excel\<close> dialect
  (\<open>QUOTE_MINIMAL\<close>, quote character \<open>"\<close>, doubled inside a quoted field, line
  terminator \<open>\r\n\<close>): a field holding the delimiter, a quote, a carriage return or a
  line feed is written between quotes, each of its quotes twice.\<close>

definition needs_quote :: "string \<Rightarrow> bool" where
  "needs_quote s = list_ex (\<lambda>c. c = pipe \<or> c = dquote \<or> c = CR \<or> c = LF) s"

definition csv_field :: "string \<Rightarrow> string" where
  "csv_field s =
     (if needs_quote s
      then [dquote] @ concat (map (\<lambda>c. if c = dquote then [dquote, dquote] else [c]) s) @ [dquote]
      else s)"

definition writerow :: "string list \<Rightarrow> string" where
  "writerow cells = join [pipe] (map csv_field cells) @ [CR, LF]"

text \<open>The loop that writes the selected records; the result is the content of the
  new file.\<close>

fun write_rows :: "row list \<Rightarrow> string" where
  "write_rows [] = []"
| "write_rows ((pid, text, norm) # rest) = writerow [pid, text, norm] @ write_rows rest"

text \<open>A record that the writer writes as it is and the reader reads as it is: no
  field holds a pipe, a quote, a carriage return or a line feed, the id does not
  start with whitespace and the normalized text does not end with it.\<close>

definition plain_row :: "row \<Rightarrow> bool" where
  "plain_row r =
     (case r of (pid, text, norm) \<Rightarrow>
        \<not> needs_quote pid \<and> \<not> needs_quote text \<and> \<not> needs_quote norm
        \<and> (pid = [] \<or> \<not> isspace (hd pid))
        \<and> (norm = [] \<or> \<not> isspace (last norm)))"

subsection \<open>The asset materializer\<close>

definition wav :: "path \<Rightarrow> string \<Rightarrow> path" where
  "wav dir pid = dir @ [pid @ ''.wav'']"

definition warn_line :: "path \<Rightarrow> string" where
  "warn_line s = ''[WARN] Missing wav: '' @ str_path s"

definition error_prefix :: "path \<Rightarrow> path \<Rightarrow> string" where
  "error_prefix s d =
     ''[ERROR] Could not copy/link '' @ str_path s @ '' -> '' @ str_path d @ '': ''"

definition error_line :: "path \<Rightarrow> path \<Rightarrow> string \<Rightarrow> string" where
  "error_line s d msg = error_prefix s d @ msg"


text \<open>The body of the loop over the selected records.\<close>

definition materialize_one ::
  "faults \<Rightarrow> bool \<Rightarrow> path \<Rightarrow> path \<Rightarrow> row \<Rightarrow> state \<Rightarrow> state" where
  "materialize_one env copy_only src_wavs dst_wavs r st =
     (let s = wav src_wavs (fst r); d = wav dst_wavs (fst r) in
      if \<not> exists_path (fs st) s then
        (print_line (warn_line s) st)\<lparr>errors := errors st + 1\<rparr>
      else if exists_path (fs st) d then st
      else
        (case (if copy_only then shutil_copy2 env s d st else os_link env s d st) of
           (None, st1) \<Rightarrow> st1
         | (Some e, st1) \<Rightarrow>
             (case shutil_copy2 env s d st1 of
                (None, st2) \<Rightarrow> st2
              | (Some e2, st2) \<Rightarrow>
                  (print_line (error_line s d e2) st2)\<lparr>errors := errors st2 + 1\<rparr>)))"

fun materialize ::
  "faults \<Rightarrow> bool \<Rightarrow> path \<Rightarrow> path \<Rightarrow> row list \<Rightarrow> state \<Rightarrow> state" where
  "materialize env copy_only src_wavs dst_wavs [] st = st"
| "materialize env copy_only src_wavs dst_wavs (r # rest) st =
     materialize env copy_only src_wavs dst_wavs rest
       (materialize_one env copy_only src_wavs dst_wavs r st)"

text \<open>The transfer the loop body tries first: a copy when \<open>--copy\<close> is given, a
  hardlink otherwise.\<close>

definition first_attempt :: "bool \<Rightarrow> path \<Rightarrow> path \<Rightarrow> op" where
  "first_attempt copy_only s d = (if copy_only then Copy2 s d else Link s d)"

subsection \<open>The program\<close>

record args =
  src :: path
  dst :: path
  count :: int
  seed :: int
  copy :: bool

definition total_line :: "nat \<Rightarrow> int \<Rightarrow> int \<Rightarrow> string" where
  "total_line total_rows n s =
     ''Total items: '' @ str_nat total_rows @ ''. Selecting: '' @ str_int n
       @ '' (seed='' @ str_int s @ '')''"

text \<open>Everything \<open>main\<close> does once the records are selected: the output directories,
  the new metadata file, the assets and the summary.\<close>

definition write_output ::
  "faults \<Rightarrow> args \<Rightarrow> int \<Rightarrow> row list \<Rightarrow> state \<Rightarrow> state" where
  "write_output env a n selected st =
     (let dst_root = dst a;
          src_wavs = src a @ [''wavs''];
          dst_wavs = dst_root @ [''wavs''];
          st1 = st\<lparr>fs := mkdir_parents dst_wavs (fs st)\<rparr>;
          meta_out = dst_root @ [''metadata.csv''];
          st2 = st1\<lparr>fs := (fs st1)(meta_out \<mapsto> File (write_rows selected))\<rparr>;
          st3 = materialize env (copy a) src_wavs dst_wavs selected (st2\<lparr>errors := 0\<rparr>);
          kept = n - int (errors st3);
          st4 = print_line (''Done. Wrote '' @ str_int kept @ '' items to: '' @ str_path dst_root) st3;
          st5 = print_line ''New files:'' st4;
          st6 = print_line ('' - '' @ str_path meta_out) st5
      in print_line ('' - '' @ str_path dst_wavs) st6)"

definition main :: "sampler \<Rightarrow> faults \<Rightarrow> args \<Rightarrow> state \<Rightarrow> outcome \<times> state" where
  "main g env a st =
     (let src_root = src a;
          src_meta = src_root @ [''metadata.csv''];
          src_wavs = src_root @ [''wavs'']
      in
      if \<not> is_file (fs st) src_meta then
        (Abort (AssertionError (''metadata.csv not found: '' @ str_path src_meta)), st)
      else if \<not> is_dir (fs st) src_wavs then
        (Abort (AssertionError (''wavs dir not found: '' @ str_path src_wavs)), st)
      else
        let rows = read_metadata (read_text (fs st) src_meta);
            total_rows = length rows
        in
        if total_rows = 0 then (Abort (SystemExit ''metadata.csv is empty or invalid.''), st)
        else
          let n = min (count a) (int total_rows);
              st1 = print_line (total_line total_rows n (seed a)) st
          in
          (case random_sample g (seed a) total_rows n of
             Inl e \<Rightarrow> (Abort e, st1)
           | Inr sample \<Rightarrow>
               let indices = sort sample in
               (case select_rows rows indices of
                  Inl e \<Rightarrow> (Abort e, st1)
                | Inr selected \<Rightarrow> (Done, write_output env a n selected st1))))"

text \<open>The state in which the loop over the selected records starts (the output
  directories made, the new metadata file written, \<open>errors = 0\<close>), and the state in
  which it ends.\<close>

definition prepared :: "args \<Rightarrow> row list \<Rightarrow> state \<Rightarrow> state" where
  "prepared a sel st =
     st\<lparr>fs := (mkdir_parents (dst a @ [''wavs'']) (fs st))
                 (dst a @ [''metadata.csv''] \<mapsto> File (write_rows sel)),
        errors := 0\<rparr>"

definition assets :: "faults \<Rightarrow> args \<Rightarrow> row list \<Rightarrow> state \<Rightarrow> state" where
  "assets env a sel st =
     materialize env (copy a) (src a @ [''wavs'']) (dst a @ [''wavs'']) sel (prepared a sel st)"

text \<open>Names for the values \<open>main\<close> computes on the way: \<open>rows\<close> (line 41), \<open>n\<close>
  (line 46), \<open>indices\<close> (line 51) and \<open>selected\<close> (line 52).\<close>

definition rows_of :: "args \<Rightarrow> state \<Rightarrow> row list" where
  "rows_of a st = read_metadata (read_text (fs st) (src a @ [''metadata.csv'']))"

definition n_of :: "args \<Rightarrow> state \<Rightarrow> int" where
  "n_of a st = min (count a) (int (length (rows_of a st)))"

definition indices_of :: "sampler \<Rightarrow> args \<Rightarrow> state \<Rightarrow> nat list" where
  "indices_of g a st = sort (g (seed a) (length (rows_of a st)) (nat (n_of a st)))"

definition selected_of :: "sampler \<Rightarrow> args \<Rightarrow> state \<Rightarrow> row list" where
  "selected_of g a st = map (\<lambda>i. rows_of a st ! i) (indices_of g a st)"

subsection \<open>Concrete inputs\<close>

text \<open>A stand-in for the generator, to run the model on concrete inputs: it draws the
  \<open>k\<close> positions that follow position \<open>seed mod N\<close>, going round. It samples without
  replacement, as Python's does, but not the same positions.\<close>

definition demo_sampler :: sampler where
  "demo_sampler s total_rows k = take k (rotate (nat (s mod int total_rows)) [0..<total_rows])"

definition never_fails :: faults where
  "never_fails k x = None"

definition always_fails :: faults where
  "always_fails k x = Some ''Errno 1''"

definition link_fails :: faults where
  "link_fails k x = (if is_link x then Some ''Errno 18'' else None)"

definition demo_content :: string where
  "demo_content = ''a|x|y\<newline>b|z\<newline>junk\<newline>\<newline>c|u|v|w\<newline>''"

definition demo_fs :: filesystem where
  "demo_fs =
     [[''in'', ''metadata.csv''] \<mapsto> File demo_content,
      [''in'', ''wavs''] \<mapsto> Dir,
      [''in'', ''wavs'', ''a.wav''] \<mapsto> File ''A'',
      [''in'', ''wavs'', ''c.wav''] \<mapsto> File ''C'',
      [''in''] \<mapsto> Dir]"

definition demo_state :: state where
  "demo_state = \<lparr>fs = demo_fs, console = [], ops = [], errors = 0\<rparr>"

definition demo_args :: "int \<Rightarrow> bool \<Rightarrow> args" where
  "demo_args c cp = \<lparr>src = [''in''], dst = [''out''], count = c, seed = 42, copy = cp\<rparr>"

text \<open>A second source tree, with the given metadata and other audio files; the state
  of a destination that already holds \<open>b.wav\<close>, whose source is missing; a metadata
  file in which an id comes twice.\<close>

definition state_of :: "string \<Rightarrow> state" where
  "state_of content =
     \<lparr>fs = [[''in'', ''metadata.csv''] \<mapsto> File content,
             [''in'', ''wavs''] \<mapsto> Dir,
             [''in'', ''wavs'', ''a.wav''] \<mapsto> File ''A'',
             [''in'', ''wavs'', ''LJ001.wav''] \<mapsto> File ''L'',
             [''in''] \<mapsto> Dir],
      console = [], ops = [], errors = 0\<rparr>"

definition rerun_state :: state where
  "rerun_state = demo_state\<lparr>fs := (fs demo_state)([''out'', ''wavs'', ''b.wav''] \<mapsto> File ''B'')\<rparr>"

definition dup_content :: string where
  "dup_content = ''a|x|y\<newline>a|z|w\<newline>''"

subsection \<open>Facts about the reader\<close>

lemma split_first_none: "sep \<notin> set s \<Longrightarrow> split_first sep s = None"
  by (simp add: split_first_def)

lemma cut_at_first:
  "sep \<notin> set a \<Longrightarrow>
   takeWhile (\<lambda>c. c \<noteq> sep) (a @ sep # b) = a \<and>
   tl (dropWhile (\<lambda>c. c \<noteq> sep) (a @ sep # b)) = b"
  by (induction a) auto

lemma split_first_some:
  "sep \<notin> set a \<Longrightarrow> split_first sep (a @ sep # b) = Some (a, b)"
  by (simp add: split_first_def cut_at_first)

lemma py_split_no_sep: "sep \<notin> set s \<Longrightarrow> py_split sep k s = [s]"
  by (cases k) (simp_all add: split_first_none)

lemma py_split_two_fields:
  "sep \<notin> set a \<Longrightarrow> sep \<notin> set b \<Longrightarrow> py_split sep 2 (a @ sep # b) = [a, b]"
  by (simp add: numeral_2_eq_2 split_first_some split_first_none)

lemma py_split_three_fields:
  "sep \<notin> set a \<Longrightarrow> sep \<notin> set b \<Longrightarrow>
   py_split sep 2 (a @ sep # b @ sep # c) = [a, b, c]"
  by (simp add: numeral_2_eq_2 split_first_some)

lemma read_lines_append: "read_lines ls rows = rows @ read_lines ls []"
proof (induction ls arbitrary: rows)
  case Nil
  show ?case by simp
next
  case (Cons l ls)
  show ?case
  proof (cases "parse_line l")
    case None
    then show ?thesis using Cons.IH [of rows] by simp
  next
    case (Some r)
    then show ?thesis using Cons.IH [of "rows @ [r]"] Cons.IH [of "[r]"] by simp
  qed
qed

lemma read_lines_map_filter: "read_lines ls [] = List.map_filter parse_line ls"
proof (induction ls)
  case Nil
  show ?case by (simp add: List.map_filter_simps)
next
  case (Cons l ls)
  show ?case
  proof (cases "parse_line l")
    case None
    then show ?thesis using Cons.IH by (simp add: List.map_filter_simps)
  next
    case (Some r)
    then show ?thesis
      using Cons.IH read_lines_append [of ls "[r]"] by (simp add: List.map_filter_simps)
  qed
qed

lemma parse_line_blank: "strip l = [] \<Longrightarrow> parse_line l = None"
  by (simp add: parse_line_def)

lemma parse_line_one_field:
  "pipe \<notin> set (strip l) \<Longrightarrow> parse_line l = None"
  by (simp add: parse_line_def Let_def py_split_no_sep)

lemma parse_line_two_fields:
  "strip l = a @ pipe # b \<Longrightarrow> pipe \<notin> set a \<Longrightarrow> pipe \<notin> set b \<Longrightarrow>
   parse_line l = Some (a, b, b)"
  by (simp add: parse_line_def Let_def py_split_two_fields)

lemma parse_line_three_fields:
  "strip l = a @ pipe # b @ pipe # c \<Longrightarrow> pipe \<notin> set a \<Longrightarrow> pipe \<notin> set b \<Longrightarrow>
   parse_line l = Some (a, b, c)"
  by (simp add: parse_line_def Let_def py_split_three_fields)

text \<open>
  Claim C9. \<open>read_metadata\<close> skips a blank line (one that is empty once stripped); a
  line without a pipe (fewer than two fields) adds no record; a line with exactly two
  fields \<open>id|text\<close> adds the record \<open>(id, text, text)\<close>; every other line is cut at its
  first two pipes into \<open>(id, text, normalized_text)\<close>, the third field keeping any
  further pipe. The records come out in the order of the lines.
\<close>

theorem read_metadata_lines:
  "(strip l = [] \<longrightarrow> read_lines (l # ls) rows = read_lines ls rows)
   \<and> (pipe \<notin> set (strip l) \<longrightarrow> read_lines (l # ls) rows = read_lines ls rows)
   \<and> (strip l = a @ pipe # b \<and> pipe \<notin> set a \<and> pipe \<notin> set b \<longrightarrow>
        read_lines (l # ls) rows = read_lines ls (rows @ [(a, b, b)]))
   \<and> (strip l = a @ pipe # b @ pipe # c \<and> pipe \<notin> set a \<and> pipe \<notin> set b \<longrightarrow>
        read_lines (l # ls) rows = read_lines ls (rows @ [(a, b, c)]))
   \<and> read_metadata content = List.map_filter parse_line (file_lines content)"
proof (intro conjI impI)
  assume "strip l = []"
  then show "read_lines (l # ls) rows = read_lines ls rows"
    by (simp add: parse_line_blank)
next
  assume "pipe \<notin> set (strip l)"
  then show "read_lines (l # ls) rows = read_lines ls rows"
    by (simp add: parse_line_one_field)
next
  assume "strip l = a @ pipe # b \<and> pipe \<notin> set a \<and> pipe \<notin> set b"
  then have "parse_line l = Some (a, b, b)"
    using parse_line_two_fields by blast
  then show "read_lines (l # ls) rows = read_lines ls (rows @ [(a, b, b)])"
    by simp
next
  assume "strip l = a @ pipe # b @ pipe # c \<and> pipe \<notin> set a \<and> pipe \<notin> set b"
  then have "parse_line l = Some (a, b, c)"
    using parse_line_three_fields by blast
  then show "read_lines (l # ls) rows = read_lines ls (rows @ [(a, b, c)])"
    by simp
next
  show "read_metadata content = List.map_filter parse_line (file_lines content)"
    by (simp add: read_metadata_def read_lines_map_filter)
qed

theorem read_metadata_lines_witness:
  "read_lines ['' \<newline>'', ''a|x|y''] [] = read_lines [''a|x|y''] []
   \<and> read_lines [''junk\<newline>'', ''a|x|y''] [] = read_lines [''a|x|y''] []
   \<and> read_lines ['' b|z\<newline>''] [(''a'', ''x'', ''y'')] = [(''a'', ''x'', ''y''), (''b'', ''z'', ''z'')]
   \<and> read_lines [''c|u|v|w\<newline>''] [] = [(''c'', ''u'', ''v|w'')]
   \<and> read_metadata ''a|x|y\<newline>\<newline>b|z''
        = List.map_filter parse_line [''a|x|y\<newline>'', ''\<newline>'', ''b|z'']"
proof -
  have blank: "strip '' \<newline>'' = []" by code_simp
  have one: "pipe \<notin> set (strip ''junk\<newline>'')" by code_simp
  have two: "strip '' b|z\<newline>'' = ''b'' @ pipe # ''z'' \<and> pipe \<notin> set ''b'' \<and> pipe \<notin> set ''z''"
    by code_simp
  have three: "strip ''c|u|v|w\<newline>'' = ''c'' @ pipe # ''u'' @ pipe # ''v|w''
      \<and> pipe \<notin> set ''c'' \<and> pipe \<notin> set ''u''"
    by code_simp
  have lines: "file_lines ''a|x|y\<newline>\<newline>b|z'' = [''a|x|y\<newline>'', ''\<newline>'', ''b|z'']"
    by code_simp
  have "read_lines ['' \<newline>'', ''a|x|y''] [] = read_lines [''a|x|y''] []"
    using blank read_metadata_lines [where l = "'' \<newline>''" and ls = "[''a|x|y'']" and rows = "[]"]
    by blast
  moreover have "read_lines [''junk\<newline>'', ''a|x|y''] [] = read_lines [''a|x|y''] []"
    using one read_metadata_lines [where l = "''junk\<newline>''" and ls = "[''a|x|y'']" and rows = "[]"]
    by blast
  moreover have "read_lines ['' b|z\<newline>''] [(''a'', ''x'', ''y'')]
      = [(''a'', ''x'', ''y''), (''b'', ''z'', ''z'')]"
    using two read_metadata_lines [where l = "'' b|z\<newline>''" and ls = "[]"
        and rows = "[(''a'', ''x'', ''y'')]" and a = "''b''" and b = "''z''"]
    by simp
  moreover have "read_lines [''c|u|v|w\<newline>''] [] = [(''c'', ''u'', ''v|w'')]"
    using three read_metadata_lines [where l = "''c|u|v|w\<newline>''" and ls = "[]"
        and rows = "[]" and a = "''c''" and b = "''u''" and c = "''v|w''"]
    by simp
  moreover have "read_metadata ''a|x|y\<newline>\<newline>b|z''
      = List.map_filter parse_line [''a|x|y\<newline>'', ''\<newline>'', ''b|z'']"
    using lines read_metadata_lines [where content = "''a|x|y\<newline>\<newline>b|z''"] by simp
  ultimately show ?thesis by blast
qed

subsection \<open>Facts about the materializer\<close>

lemma materialize_one_cases:
  fixes env copy_only src_wavs dst_wavs r st
  defines "s \<equiv> wav src_wavs (fst r)" and "d \<equiv> wav dst_wavs (fst r)"
  defines "x \<equiv> (if copy_only then Copy2 s d else Link s d)"
  defines "k \<equiv> length (ops st)"
  defines "st' \<equiv> materialize_one env copy_only src_wavs dst_wavs r st"
  obtains
    (missing) "\<not> exists_path (fs st) s"
      "st' = st\<lparr>console := console st @ [warn_line s], errors := errors st + 1\<rparr>"
  | (present) "exists_path (fs st) s" "exists_path (fs st) d" "st' = st"
  | (first_ok) "exists_path (fs st) s" "\<not> exists_path (fs st) d" "env k x = None"
      "st' = st\<lparr>fs := (fs st)(d := fs st s), ops := ops st @ [x]\<rparr>"
  | (second_ok) e where "exists_path (fs st) s" "\<not> exists_path (fs st) d"
      "env k x = Some e" "env (Suc k) (Copy2 s d) = None"
      "st' = st\<lparr>fs := (fs st)(d := fs st s), ops := ops st @ [x, Copy2 s d]\<rparr>"
  | (both_fail) e e2 where "exists_path (fs st) s" "\<not> exists_path (fs st) d"
      "env k x = Some e" "env (Suc k) (Copy2 s d) = Some e2"
      "st' = st\<lparr>ops := ops st @ [x, Copy2 s d],
                  console := console st @ [error_line s d e2],
                  errors := errors st + 1\<rparr>"
proof -
  consider "\<not> exists_path (fs st) s"
    | "exists_path (fs st) s" "exists_path (fs st) d"
    | "exists_path (fs st) s" "\<not> exists_path (fs st) d" "env k x = None"
    | e where "exists_path (fs st) s" "\<not> exists_path (fs st) d" "env k x = Some e"
        "env (Suc k) (Copy2 s d) = None"
    | e e2 where "exists_path (fs st) s" "\<not> exists_path (fs st) d" "env k x = Some e"
        "env (Suc k) (Copy2 s d) = Some e2"
    by (cases "env k x"; cases "env (Suc k) (Copy2 s d)") auto
  then show thesis
  proof cases
    case 1
    then show ?thesis
      by (intro missing) (simp_all add: st'_def materialize_one_def s_def print_line_def Let_def)
  next
    case 2
    then show ?thesis
      by (intro present) (simp_all add: st'_def materialize_one_def s_def d_def Let_def)
  next
    case 3
    then show ?thesis
      by (intro first_ok)
        (cases copy_only;
          simp add: st'_def materialize_one_def s_def d_def x_def k_def Let_def
            shutil_copy2_def os_link_def perform_def)+
  next
    case 4
    then show ?thesis
      by (intro second_ok [of e])
        (cases copy_only;
          simp add: st'_def materialize_one_def s_def d_def x_def k_def Let_def
            shutil_copy2_def os_link_def perform_def)+
  next
    case 5
    then show ?thesis
      by (intro both_fail [of e e2])
        (cases copy_only;
          simp add: st'_def materialize_one_def s_def d_def x_def k_def Let_def
            shutil_copy2_def os_link_def perform_def print_line_def)+
  qed
qed





lemma materialize_one_exists:
  "exists_path (fs st) p \<Longrightarrow>
   exists_path (fs (materialize_one env copy_only src_wavs dst_wavs r st)) p"
  by (cases rule: materialize_one_cases
        [where st = st and env = env and copy_only = copy_only and r = r
           and src_wavs = src_wavs and dst_wavs = dst_wavs])
     (auto simp: exists_path_def)

lemma materialize_one_console:
  "\<exists>new. console (materialize_one env copy_only src_wavs dst_wavs r st) = console st @ new"
  by (cases rule: materialize_one_cases
        [where st = st and env = env and copy_only = copy_only and r = r
           and src_wavs = src_wavs and dst_wavs = dst_wavs])
     auto

lemma materialize_one_errors:
  "errors st \<le> errors (materialize_one env copy_only src_wavs dst_wavs r st)"
  by (cases rule: materialize_one_cases
        [where st = st and env = env and copy_only = copy_only and r = r
           and src_wavs = src_wavs and dst_wavs = dst_wavs])
     auto

lemma materialize_one_frame:
  "p \<noteq> wav dst_wavs (fst r) \<Longrightarrow>
   fs (materialize_one env copy_only src_wavs dst_wavs r st) p = fs st p"
  by (cases rule: materialize_one_cases
        [where st = st and env = env and copy_only = copy_only and r = r
           and src_wavs = src_wavs and dst_wavs = dst_wavs])
     auto


lemma materialize_exists:
  "exists_path (fs st) p \<Longrightarrow>
   exists_path (fs (materialize env copy_only src_wavs dst_wavs rs st)) p"
  by (induction rs arbitrary: st) (simp_all add: materialize_one_exists)

lemma materialize_console:
  "\<exists>new. console (materialize env copy_only src_wavs dst_wavs rs st) = console st @ new"
proof (induction rs arbitrary: st)
  case Nil
  show ?case by simp
next
  case (Cons r rs)
  obtain n1 where "console (materialize_one env copy_only src_wavs dst_wavs r st) = console st @ n1"
    using materialize_one_console by blast
  moreover obtain n2 where
    "console (materialize env copy_only src_wavs dst_wavs rs
        (materialize_one env copy_only src_wavs dst_wavs r st))
     = console (materialize_one env copy_only src_wavs dst_wavs r st) @ n2"
    using Cons.IH by blast
  ultimately show ?case by simp
qed

lemma materialize_errors:
  "errors st \<le> errors (materialize env copy_only src_wavs dst_wavs rs st)"
proof (induction rs arbitrary: st)
  case Nil
  show ?case by simp
next
  case (Cons r rs)
  show ?case
    using Cons.IH [of "materialize_one env copy_only src_wavs dst_wavs r st"]
      materialize_one_errors [of st env copy_only src_wavs dst_wavs r]
    by simp
qed

lemma materialize_frame:
  "\<forall>r \<in> set rs. p \<noteq> wav dst_wavs (fst r) \<Longrightarrow>
   fs (materialize env copy_only src_wavs dst_wavs rs st) p = fs st p"
  by (induction rs arbitrary: st) (simp_all add: materialize_one_frame)


subsection \<open>Facts about the program\<close>

lemma fs_print_line [simp]: "fs (print_line l st) = fs st"
  by (simp add: print_line_def)

lemma ops_print_line [simp]: "ops (print_line l st) = ops st"
  by (simp add: print_line_def)

lemma console_print_line [simp]: "console (print_line l st) = console st @ [l]"
  by (simp add: print_line_def)

lemma errors_print_line [simp]: "errors (print_line l st) = errors st"
  by (simp add: print_line_def)

lemma meta_not_wav: "d @ [''metadata.csv''] \<noteq> wav (d @ [''wavs'']) pid"
  by (simp add: wav_def)

lemma write_output_fs: "fs (write_output env a n sel st) = fs (assets env a sel st)"
  by (simp add: write_output_def assets_def prepared_def Let_def)

lemma write_output_ops: "ops (write_output env a n sel st) = ops (assets env a sel st)"
  by (simp add: write_output_def assets_def prepared_def Let_def)

lemma write_output_console:
  "console (write_output env a n sel st) =
   console (assets env a sel st) @
     [''Done. Wrote '' @ str_int (n - int (errors (assets env a sel st))) @ '' items to: ''
        @ str_path (dst a),
      ''New files:'',
      '' - '' @ str_path (dst a @ [''metadata.csv'']),
      '' - '' @ str_path (dst a @ [''wavs''])]"
  by (simp add: write_output_def assets_def prepared_def Let_def)

lemma assets_meta:
  "fs (assets env a sel st) (dst a @ [''metadata.csv'']) = Some (File (write_rows sel))"
  by (simp add: assets_def materialize_frame meta_not_wav prepared_def)

lemma assets_console: "\<exists>new. console (assets env a sel st) = console st @ new"
  using materialize_console [of env "copy a" "src a @ [''wavs'']" "dst a @ [''wavs'']" sel
      "prepared a sel st"]
  by (simp add: assets_def prepared_def)

lemma main_done:
  assumes "is_file (fs st) (src a @ [''metadata.csv''])"
    and "is_dir (fs st) (src a @ [''wavs''])"
    and "rows_of a st \<noteq> []"
    and "0 \<le> count a"
    and "list_all (\<lambda>i. i < length (rows_of a st))
           (g (seed a) (length (rows_of a st)) (nat (n_of a st)))"
  shows "main g env a st =
     (Done, write_output env a (n_of a st) (selected_of g a st)
        (print_line (total_line (length (rows_of a st)) (n_of a st) (seed a)) st))"
proof -
  have n: "0 \<le> n_of a st" "n_of a st \<le> int (length (rows_of a st))"
    using assms(4) by (simp_all add: n_of_def)
  have rs: "random_sample g (seed a) (length (rows_of a st)) (n_of a st)
      = Inr (g (seed a) (length (rows_of a st)) (nat (n_of a st)))"
    using n by (simp add: random_sample_def)
  have sel: "select_rows (rows_of a st) (indices_of g a st) = Inr (selected_of g a st)"
    using assms(5) by (simp add: select_rows_def selected_of_def indices_of_def list_all_iff)
  show ?thesis
    using assms(1-3) rs sel
    by (simp add: main_def Let_def rows_of_def [symmetric] n_of_def [symmetric]
        indices_of_def [symmetric])
qed



lemma main_negative:
  assumes "is_file (fs st) (src a @ [''metadata.csv''])"
    and "is_dir (fs st) (src a @ [''wavs''])"
    and "rows_of a st \<noteq> []"
    and "count a < 0"
  shows "main g env a st =
     (Abort ValueError, print_line (total_line (length (rows_of a st)) (count a) (seed a)) st)"
proof -
  have "min (count a) (int (length (rows_of a st))) = count a"
    using assms(4) by simp
  then show ?thesis
    using assms by (simp add: main_def Let_def rows_of_def random_sample_def)
qed

lemma sample_ok_range: "sample_ok xs N k \<Longrightarrow> list_all (\<lambda>i. i < N) xs"
  by (simp add: sample_ok_def)

lemma sort_full_sample:
  assumes "sample_ok xs N N"
  shows "sort xs = [0..<N]"
proof -
  have sub: "set xs \<subseteq> {0..<N}"
    using assms by (auto simp: sample_ok_def list_all_iff)
  have "card (set xs) = N"
    using assms by (simp add: sample_ok_def distinct_card)
  then have "set xs = {0..<N}"
    using sub by (simp add: card_subset_eq)
  then have "set (sort xs) = set [0..<N]" by simp
  moreover have "distinct (sort xs)" using assms by (simp add: sample_ok_def)
  ultimately show ?thesis
    by (intro sorted_distinct_set_unique) simp_all
qed

lemma length_selected_of:
  "sample_ok (g (seed a) (length (rows_of a st)) (nat (n_of a st))) (length (rows_of a st)) (nat (n_of a st))
   \<Longrightarrow> length (selected_of g a st) = nat (n_of a st)"
  by (simp add: selected_of_def indices_of_def sample_ok_def)

text \<open>
  Claim C1. On a run that passes the checks of the source, with a requested count
  \<open>C \<ge> 0\<close> and \<open>N\<close> parsed records, the program completes, the number of records it
  selects and writes is \<open>min C N\<close>, for \<open>C \<ge> N\<close> the selection is all \<open>N\<close> records in
  their order, and the first line it prints reports \<open>N\<close> and \<open>min C N\<close>.
\<close>

theorem effective_count:
  assumes "is_file (fs st) (src a @ [''metadata.csv''])"
    and "is_dir (fs st) (src a @ [''wavs''])"
    and "rows_of a st \<noteq> []"
    and "0 \<le> count a"
    and "sample_ok (g (seed a) (length (rows_of a st)) (nat (n_of a st)))
           (length (rows_of a st)) (nat (n_of a st))"
  shows "\<exists>st'. main g env a st = (Done, st')
     \<and> fs st' (dst a @ [''metadata.csv'']) = Some (File (write_rows (selected_of g a st)))
     \<and> int (length (selected_of g a st)) = min (count a) (int (length (rows_of a st)))
     \<and> (int (length (rows_of a st)) \<le> count a \<longrightarrow> selected_of g a st = rows_of a st)
     \<and> (\<exists>rest. console st' = console st @
           total_line (length (rows_of a st)) (min (count a) (int (length (rows_of a st)))) (seed a)
             # rest)"
proof -
  let ?N = "length (rows_of a st)"
  let ?line = "total_line ?N (n_of a st) (seed a)"
  let ?st' = "write_output env a (n_of a st) (selected_of g a st) (print_line ?line st)"
  have run: "main g env a st = (Done, ?st')"
    using assms sample_ok_range by (intro main_done) blast+
  have meta: "fs ?st' (dst a @ [''metadata.csv'']) = Some (File (write_rows (selected_of g a st)))"
    by (simp add: write_output_fs assets_meta)
  have len: "int (length (selected_of g a st)) = min (count a) (int ?N)"
    using assms(4,5) by (simp add: length_selected_of) (simp add: n_of_def)
  have full: "selected_of g a st = rows_of a st" if "int ?N \<le> count a"
  proof -
    have "nat (n_of a st) = ?N" using that by (simp add: n_of_def)
    then have "indices_of g a st = [0..<?N]"
      using assms(5) sort_full_sample [of "g (seed a) ?N ?N" ?N] by (simp add: indices_of_def)
    then show ?thesis by (simp add: selected_of_def map_nth)
  qed
  obtain new where
    "console (assets env a (selected_of g a st) (print_line ?line st)) = console (print_line ?line st) @ new"
    using assets_console by blast
  then have "\<exists>rest. console ?st' = console st @ ?line # rest"
    by (simp add: write_output_console)
  then show ?thesis
    using run meta len full by (simp add: n_of_def)
qed

lemma demo_rows:
  "rows_of (demo_args c cp) demo_state =
     [(''a'', ''x'', ''y''), (''b'', ''z'', ''z''), (''c'', ''u'', ''v|w'')]"
  by code_simp

lemma demo_is_file: "is_file (fs demo_state) (src (demo_args c cp) @ [''metadata.csv''])"
  by code_simp

lemma demo_is_dir: "is_dir (fs demo_state) (src (demo_args c cp) @ [''wavs''])"
  by code_simp

theorem effective_count_witness:
  "is_file (fs demo_state) (src (demo_args 5 False) @ [''metadata.csv''])
   \<and> is_dir (fs demo_state) (src (demo_args 5 False) @ [''wavs''])
   \<and> rows_of (demo_args 5 False) demo_state \<noteq> []
   \<and> 0 \<le> count (demo_args 5 False)
   \<and> (\<exists>st'. main demo_sampler link_fails (demo_args 5 False) demo_state = (Done, st')
        \<and> length (selected_of demo_sampler (demo_args 5 False) demo_state) = 3
        \<and> selected_of demo_sampler (demo_args 5 False) demo_state
            = rows_of (demo_args 5 False) demo_state
        \<and> console st' ! 0 = ''Total items: 3. Selecting: 3 (seed=42)'')"
proof -
  let ?a = "demo_args 5 False"
  have h1: "is_file (fs demo_state) (src ?a @ [''metadata.csv''])" by code_simp
  have h2: "is_dir (fs demo_state) (src ?a @ [''wavs''])" by code_simp
  have h3: "rows_of ?a demo_state \<noteq> []" by code_simp
  have h4: "0 \<le> count ?a" by code_simp
  have h5: "sample_ok (demo_sampler (seed ?a) (length (rows_of ?a demo_state)) (nat (n_of ?a demo_state)))
           (length (rows_of ?a demo_state)) (nat (n_of ?a demo_state))" by code_simp
  have l: "total_line 3 3 42 = ''Total items: 3. Selecting: 3 (seed=42)''" by code_simp
  have n: "length (rows_of ?a demo_state) = 3" "count ?a = 5" "seed ?a = 42" "console demo_state = []" by code_simp+
  show ?thesis
    using h1 h2 h3 h4 effective_count [where g = demo_sampler and a = ?a and st = demo_state
        and env = link_fails, OF h1 h2 h3 h4 h5] 
    unfolding n by (auto simp: l)
qed

lemma main_Done_state:
  "main g env a st = (Done, st') \<Longrightarrow>
   st' = write_output env a (n_of a st) (selected_of g a st)
          (print_line (total_line (length (rows_of a st)) (n_of a st) (seed a)) st)"
  by (auto simp: main_def Let_def rows_of_def n_of_def indices_of_def selected_of_def
        random_sample_def select_rows_def split: if_splits sum.splits)




lemma materialize_nil_assets: "assets env a [] st = prepared a [] st"
  by (simp add: assets_def)

text \<open>
  Claim C10. On a run that passes the three checks: with requested count 0 the run
  completes, the new metadata file is empty and no transfer is attempted; with a
  negative requested count the sampling raises \<open>ValueError\<close>, after the first line was
  printed and before anything is written.
\<close>

theorem count_zero_and_negative:
  assumes "is_file (fs st) (src a @ [''metadata.csv''])"
    and "is_dir (fs st) (src a @ [''wavs''])"
    and "rows_of a st \<noteq> []"
  shows "(count a = 0 \<and> g (seed a) (length (rows_of a st)) 0 = [] \<longrightarrow>
           (\<exists>st'. main g env a st = (Done, st')
              \<and> fs st' = (mkdir_parents (dst a @ [''wavs'']) (fs st))
                           (dst a @ [''metadata.csv''] \<mapsto> File [])
              \<and> ops st' = ops st \<and> errors st' = 0))
     \<and> (count a < 0 \<longrightarrow>
           main g env a st =
             (Abort ValueError,
              print_line (total_line (length (rows_of a st)) (count a) (seed a)) st))"
proof (intro conjI impI)
  assume z: "count a = 0 \<and> g (seed a) (length (rows_of a st)) 0 = []"
  then have n: "n_of a st = 0" by (simp add: n_of_def)
  have sel: "selected_of g a st = []"
    using z n by (simp add: selected_of_def indices_of_def)
  let ?st1 = "print_line (total_line (length (rows_of a st)) (n_of a st) (seed a)) st"
  have "main g env a st = (Done, write_output env a (n_of a st) (selected_of g a st) ?st1)"
    using assms z n by (intro main_done) simp_all
  moreover have "fs (write_output env a (n_of a st) [] ?st1)
      = (mkdir_parents (dst a @ [''wavs'']) (fs st))(dst a @ [''metadata.csv''] \<mapsto> File [])"
    by (simp add: write_output_fs materialize_nil_assets prepared_def)
  moreover have "ops (write_output env a (n_of a st) [] ?st1) = ops st"
    by (simp add: write_output_ops materialize_nil_assets prepared_def)
  moreover have "errors (write_output env a (n_of a st) [] ?st1) = 0"
    by (simp add: write_output_def Let_def)
  ultimately show "\<exists>st'. main g env a st = (Done, st')
              \<and> fs st' = (mkdir_parents (dst a @ [''wavs'']) (fs st))
                           (dst a @ [''metadata.csv''] \<mapsto> File [])
              \<and> ops st' = ops st \<and> errors st' = 0"
    by (simp add: sel)
next
  assume "count a < 0"
  then show "main g env a st =
             (Abort ValueError,
              print_line (total_line (length (rows_of a st)) (count a) (seed a)) st)"
    using assms by (intro main_negative)
qed




lemma main_Done_meta:
  assumes "main g env a st = (Done, st')"
  shows "fs st' (dst a @ [''metadata.csv'']) = Some (File (write_rows (selected_of g a st)))"
proof -
  have "st' = write_output env a (n_of a st) (selected_of g a st)
          (print_line (total_line (length (rows_of a st)) (n_of a st) (seed a)) st)"
    using assms by (rule main_Done_state)
  then show ?thesis by (simp add: write_output_fs assets_meta)
qed


lemma distinct_ids_selected:
  assumes "distinct (map fst rows)" and "distinct is" and "list_all (\<lambda>i. i < length rows) is"
  shows "distinct (map fst (map (\<lambda>i. rows ! i) is))"
proof -
  have "inj_on (\<lambda>i. fst (rows ! i)) (set is)"
  proof (rule inj_onI)
    fix i j
    assume "i \<in> set is" "j \<in> set is" "fst (rows ! i) = fst (rows ! j)"
    then have "i < length (map fst rows)" "j < length (map fst rows)"
      "map fst rows ! i = map fst rows ! j"
      using assms(3) by (simp_all add: list_all_iff)
    then show "i = j"
      using assms(1) nth_eq_iff_index_eq by blast
  qed
  then show ?thesis
    using assms(2) by (simp add: distinct_map comp_def)
qed

text \<open>
  Claim C6, amended. When the ids of the parsed records are pairwise distinct, so are
  the ids of the records written to the new metadata file.
\<close>

theorem unique_ids_preserved:
  assumes "distinct (map fst (rows_of a st))"
    and "sample_ok (g (seed a) (length (rows_of a st)) (nat (n_of a st)))
           (length (rows_of a st)) (nat (n_of a st))"
    and "main g env a st = (Done, st')"
  shows "fs st' (dst a @ [''metadata.csv'']) = Some (File (write_rows (selected_of g a st)))
     \<and> distinct (map fst (selected_of g a st))"
proof -
  have "fs st' (dst a @ [''metadata.csv'']) = Some (File (write_rows (selected_of g a st)))"
    using assms(3) by (rule main_Done_meta)
  moreover have "distinct (indices_of g a st)"
    using assms(2) by (simp add: indices_of_def sample_ok_def)
  moreover have "list_all (\<lambda>i. i < length (rows_of a st)) (indices_of g a st)"
    using assms(2) by (simp add: indices_of_def sample_ok_def list_all_iff)
  ultimately show ?thesis
    using assms(1) distinct_ids_selected unfolding selected_of_def by blast
qed

subsection \<open>Reading back what the writer wrote\<close>

text \<open>A record whose fields hold no pipe, quote, carriage return or line feed is
  written as it is, and the selected indices are in ascending order.\<close>

lemma csv_field_plain: "\<not> needs_quote x \<Longrightarrow> csv_field x = x"
  by (simp add: csv_field_def)

lemma writerow_plain:
  "\<not> needs_quote pid \<Longrightarrow> \<not> needs_quote text \<Longrightarrow> \<not> needs_quote norm \<Longrightarrow>
   writerow [pid, text, norm] = pid @ [pipe] @ text @ [pipe] @ norm @ [CR, LF]"
  by (simp add: writerow_def csv_field_plain)

lemma indices_sorted: "sorted (indices_of g a st)"
  by (simp add: indices_of_def)

lemma main_DoneI:
  "fst (main g env a st) = Done \<Longrightarrow> main g env a st = (Done, snd (main g env a st))"
  by (simp add: prod_eq_iff)

lemma needs_quote_set:
  "needs_quote s = (pipe \<in> set s \<or> dquote \<in> set s \<or> CR \<in> set s \<or> LF \<in> set s)"
  by (auto simp: needs_quote_def list_ex_iff)

lemma isspace_LF: "isspace LF" by (simp add: isspace_def)
lemma isspace_pipe: "\<not> isspace pipe" by (simp add: isspace_def)

lemma universal_newlines_line:
  "CR \<notin> set l \<Longrightarrow>
   universal_newlines (l @ CR # LF # rest) = l @ LF # universal_newlines rest"
proof (induction l)
  case Nil
  show ?case by simp
next
  case (Cons c l)
  obtain d ds where t: "l @ CR # LF # rest = d # ds"
    by (cases "l @ CR # LF # rest") simp_all
  have "universal_newlines (c # d # ds) = c # universal_newlines (d # ds)"
    using Cons.prems by auto
  then show ?case using Cons t by simp
qed

lemma lines_from_line:
  "LF \<notin> set l \<Longrightarrow> lines_from cur (l @ LF # rest) = (cur @ l @ [LF]) # lines_from [] rest"
  by (induction l arbitrary: cur) auto

lemma strip_line:
  assumes "l \<noteq> []" "\<not> isspace (hd l)" "\<not> isspace (last l)"
  shows "strip (l @ [LF]) = l"
proof -
  have "dropWhile isspace (l @ [LF]) = l @ [LF]"
    using assms(1,2) by (cases l) simp_all
  moreover have "dropWhile isspace (rev l) = rev l"
    using assms(1,3) by (cases "rev l") (simp_all add: last_rev [symmetric] hd_rev)
  ultimately show ?thesis
    by (simp add: strip_def isspace_LF)
qed

lemma parse_written_line:
  assumes "plain_row (pid, text, norm)"
  shows "parse_line (pid @ pipe # text @ pipe # norm @ [LF]) = Some (pid, text, norm)"
proof -
  let ?l = "pid @ pipe # text @ pipe # norm"
  have p: "pipe \<notin> set pid" "pipe \<notin> set text"
    using assms by (simp_all add: plain_row_def needs_quote_set)
  have "\<not> isspace (hd ?l)"
    using assms by (cases pid) (simp_all add: plain_row_def isspace_pipe)
  moreover have "\<not> isspace (last ?l)"
    using assms by (cases "norm = []") (simp_all add: plain_row_def isspace_pipe)
  ultimately have "strip (?l @ [LF]) = ?l"
    by (intro strip_line) simp_all
  then show ?thesis
    using p by (intro parse_line_three_fields) simp_all
qed

lemma write_rows_plain:
  assumes "plain_row (pid, text, norm)"
  shows "write_rows ((pid, text, norm) # rest)
     = (pid @ pipe # text @ pipe # norm) @ CR # LF # write_rows rest"
  using assms by (simp add: plain_row_def writerow_plain)

lemma file_lines_written:
  assumes "plain_row (pid, text, norm)"
  shows "file_lines (write_rows ((pid, text, norm) # rest))
     = (pid @ pipe # text @ pipe # norm @ [LF]) # file_lines (write_rows rest)"
proof -
  let ?l = "pid @ pipe # text @ pipe # norm"
  have c: "CR \<notin> set ?l" "LF \<notin> set ?l"
    using assms by (simp_all add: plain_row_def needs_quote_set)
  have "universal_newlines (write_rows ((pid, text, norm) # rest))
      = ?l @ LF # universal_newlines (write_rows rest)"
    unfolding write_rows_plain [OF assms] using c(1) by (rule universal_newlines_line)
  then show ?thesis
    using lines_from_line [OF c(2), of "[]"] by (simp add: file_lines_def)
qed

lemma read_written_plain:
  "list_all plain_row rows \<Longrightarrow> read_metadata (write_rows rows) = rows"
proof (induction rows)
  case Nil
  show ?case by (simp add: read_metadata_def file_lines_def)
next
  case (Cons r rows)
  obtain pid tx norm where r: "r = (pid, tx, norm)" by (cases r)
  have p: "plain_row (pid, tx, norm)" using Cons.prems r by simp
  have fl: "file_lines (write_rows (r # rows))
      = (pid @ pipe # tx @ pipe # norm @ [LF]) # file_lines (write_rows rows)"
    unfolding r by (rule file_lines_written [OF p])
  have "read_metadata (write_rows (r # rows))
      = List.map_filter parse_line
          ((pid @ pipe # tx @ pipe # norm @ [LF]) # file_lines (write_rows rows))"
    by (simp only: read_metadata_def read_lines_map_filter fl)
  also have "\<dots> = (pid, tx, norm) # List.map_filter parse_line (file_lines (write_rows rows))"
    by (simp add: List.map_filter_simps parse_written_line [OF p])
  also have "\<dots> = r # read_metadata (write_rows rows)"
    by (simp add: r read_metadata_def read_lines_map_filter)
  finally show ?case using Cons by simp
qed

text \<open>What \<open>read_metadata\<close> gives: no pipe in id and text, no line break in a field,
  no whitespace before the id or after the normalized text.\<close>

lemma universal_newlines_no_CR: "CR \<notin> set (universal_newlines s)"
  by (induction s rule: universal_newlines.induct) auto

lemma set_universal_newlines: "set (universal_newlines s) \<subseteq> insert LF (set s)"
  by (induction s rule: universal_newlines.induct) auto

lemma lines_from_shape:
  "LF \<notin> set cur \<Longrightarrow> l \<in> set (lines_from cur s) \<Longrightarrow>
   \<exists>b. (l = b \<or> l = b @ [LF]) \<and> LF \<notin> set b \<and> set b \<subseteq> set cur \<union> set s"
proof (induction s arbitrary: cur)
  case Nil
  then show ?case by (auto split: if_splits)
next
  case (Cons c s)
  show ?case
  proof (cases "c = LF")
    case True
    then consider "l = cur @ [LF]" | "l \<in> set (lines_from [] s)"
      using Cons.prems(2) by auto
    then show ?thesis
    proof cases
      case 1
      then show ?thesis using Cons.prems(1) by auto
    next
      case 2
      then obtain b where "(l = b \<or> l = b @ [LF]) \<and> LF \<notin> set b \<and> set b \<subseteq> set [] \<union> set s"
        using Cons.IH [of "[]"] by auto
      then show ?thesis by auto
    qed
  next
    case False
    then have "l \<in> set (lines_from (cur @ [c]) s)" "LF \<notin> set (cur @ [c])"
      using Cons.prems by auto
    then obtain b where "(l = b \<or> l = b @ [LF]) \<and> LF \<notin> set b \<and> set b \<subseteq> set (cur @ [c]) \<union> set s"
      using Cons.IH [of "cur @ [c]"] by blast
    then show ?thesis by auto
  qed
qed

lemma file_lines_shape:
  assumes "l \<in> set (file_lines content)"
  shows "\<exists>b. (l = b \<or> l = b @ [LF]) \<and> LF \<notin> set b \<and> CR \<notin> set b"
proof -
  obtain b where b: "l = b \<or> l = b @ [LF]" "LF \<notin> set b"
    "set b \<subseteq> set [] \<union> set (universal_newlines content)"
    using assms lines_from_shape [of "[]" l "universal_newlines content"]
    by (auto simp: file_lines_def)
  then have "CR \<notin> set b" using universal_newlines_no_CR by auto
  with b show ?thesis by blast
qed

lemma strip_drop_LF: "strip (b @ [LF]) = strip b"
proof (cases "dropWhile isspace b = []")
  case True
  then have "\<forall>x \<in> set (b @ [LF]). isspace x"
    by (simp add: dropWhile_eq_Nil_conv isspace_LF)
  then have e: "dropWhile isspace (b @ [LF]) = []"
    by (simp only: dropWhile_eq_Nil_conv)
  show ?thesis unfolding strip_def e True ..
next
  case False
  then have "dropWhile isspace (b @ [LF]) = dropWhile isspace b @ [LF]"
    by (metis dropWhile_append1 dropWhile_eq_Nil_conv)
  then show ?thesis by (simp add: strip_def isspace_LF)
qed

lemma set_strip: "set (strip s) \<subseteq> set s"
proof
  fix x
  assume "x \<in> set (strip s)"
  then have "x \<in> set (dropWhile isspace (rev (dropWhile isspace s)))"
    by (simp add: strip_def)
  then have "x \<in> set (rev (dropWhile isspace s))" by (rule set_dropWhileD)
  then have "x \<in> set (dropWhile isspace s)" by simp
  then show "x \<in> set s" by (rule set_dropWhileD)
qed

lemma strip_ends:
  assumes "strip s \<noteq> []"
  shows "\<not> isspace (hd (strip s))" and "\<not> isspace (last (strip s))"
proof -
  let ?t = "dropWhile isspace s"
  let ?u = "dropWhile isspace (rev ?t)"
  have u: "?u \<noteq> []" using assms by (simp add: strip_def)
  have t: "?t \<noteq> []"
  proof
    assume "?t = []"
    then have "?u = []" by (simp only: rev.simps dropWhile.simps)
    with u show False by contradiction
  qed
  have "\<not> isspace (hd ?u)" using u by (rule hd_dropWhile)
  then show "\<not> isspace (last (strip s))"
    using u by (simp add: strip_def last_rev)
  have "rev ?t = takeWhile isspace (rev ?t) @ ?u" by simp
  then have "last (rev ?t) = last ?u" using u by (metis last_appendR)
  then have "last ?u = hd ?t" using t by (simp add: last_rev)
  moreover have "\<not> isspace (hd ?t)" using t by (rule hd_dropWhile)
  ultimately show "\<not> isspace (hd (strip s))"
    using u by (simp add: strip_def hd_rev)
qed

lemma split_first_SomeD:
  "split_first sep s = Some (a, rest) \<Longrightarrow> s = a @ sep # rest \<and> sep \<notin> set a"
proof -
  assume h: "split_first sep s = Some (a, rest)"
  then have m: "sep \<in> set s" and a: "a = takeWhile (\<lambda>c. c \<noteq> sep) s"
    and r: "rest = tl (dropWhile (\<lambda>c. c \<noteq> sep) s)"
    by (auto simp: split_first_def split: if_splits)
  have ne: "dropWhile (\<lambda>c. c \<noteq> sep) s \<noteq> []"
    using m by (auto simp: dropWhile_eq_Nil_conv)
  then have "hd (dropWhile (\<lambda>c. c \<noteq> sep) s) = sep"
    using hd_dropWhile [of "\<lambda>c. c \<noteq> sep" s] by simp
  then have "dropWhile (\<lambda>c. c \<noteq> sep) s = sep # rest"
    using ne r by (cases "dropWhile (\<lambda>c. c \<noteq> sep) s") simp_all
  then have "s = a @ sep # rest"
    using takeWhile_dropWhile_id [of "\<lambda>c. c \<noteq> sep" s] a by simp
  moreover have "sep \<notin> set a"
    using a by (auto dest: set_takeWhileD)
  ultimately show ?thesis by simp
qed

lemma parse_line_SomeD:
  assumes "parse_line l = Some (a, b, c)"
  shows "pipe \<notin> set a \<and> pipe \<notin> set b
     \<and> (strip l = a @ pipe # b \<and> c = b \<or> strip l = a @ pipe # b @ pipe # c)"
proof (cases "split_first pipe (strip l)")
  case None
  then show ?thesis
    using assms by (simp add: parse_line_def Let_def numeral_2_eq_2 split: if_splits)
next
  case (Some p)
  obtain a' r1 where p: "p = (a', r1)" by (cases p)
  have s1: "strip l = a' @ pipe # r1" "pipe \<notin> set a'"
    using split_first_SomeD [of pipe "strip l" a' r1] Some p by simp_all
  show ?thesis
  proof (cases "split_first pipe r1")
    case None
    then have "pipe \<notin> set r1" by (auto simp: split_first_def split: if_splits)
    moreover have "py_split pipe 2 (strip l) = [a', r1]"
      using Some p None by (simp add: numeral_2_eq_2)
    ultimately show ?thesis
      using assms s1 by (auto simp: parse_line_def Let_def split: if_splits)
  next
    case (Some q)
    obtain b' r2 where q: "q = (b', r2)" by (cases q)
    have s2: "r1 = b' @ pipe # r2" "pipe \<notin> set b'"
      using split_first_SomeD [of pipe r1 b' r2] Some q by simp_all
    have "py_split pipe 2 (strip l) = [a', b', r2]"
      using \<open>split_first pipe (strip l) = Some p\<close> p Some q by (simp add: numeral_2_eq_2)
    then show ?thesis
      using assms s1 s2 by (auto simp: parse_line_def Let_def split: if_splits)
  qed
qed

lemma read_metadata_row:
  assumes "(a, b, c) \<in> set (read_metadata content)"
  shows "pipe \<notin> set a \<and> pipe \<notin> set b
     \<and> CR \<notin> set a \<union> set b \<union> set c \<and> LF \<notin> set a \<union> set b \<union> set c
     \<and> (a = [] \<or> \<not> isspace (hd a)) \<and> (c = [] \<or> \<not> isspace (last c))"
proof -
  obtain l where l: "l \<in> set (file_lines content)" "parse_line l = Some (a, b, c)"
    using assms by (auto simp: read_metadata_def read_lines_map_filter List.map_filter_def)
  obtain z where z: "l = z \<or> l = z @ [LF]" "LF \<notin> set z" "CR \<notin> set z"
    using file_lines_shape [OF l(1)] by blast
  have sz: "strip l = strip z" using z(1) strip_drop_LF by auto
  have sub: "set (strip l) \<subseteq> set z" unfolding sz by (rule set_strip)
  have p: "pipe \<notin> set a" "pipe \<notin> set b"
    and shape: "strip l = a @ pipe # b \<and> c = b \<or> strip l = a @ pipe # b @ pipe # c"
    using parse_line_SomeD [OF l(2)] by simp_all
  then have ne: "strip l \<noteq> []" by auto
  have fields: "set a \<union> set b \<union> set c \<subseteq> set (strip l)"
    using shape by auto
  have e: "\<not> isspace (hd (strip l))" "\<not> isspace (last (strip l))"
    using strip_ends [OF ne] by simp_all
  have "a = [] \<or> \<not> isspace (hd a)"
    using shape e(1) by (cases a) auto
  moreover have "c = [] \<or> \<not> isspace (last c)"
    using shape e(2) by (cases "c = []") auto
  moreover have "CR \<notin> set a \<union> set b \<union> set c" "LF \<notin> set a \<union> set b \<union> set c"
    using fields sub z by blast+
  ultimately show ?thesis using p by blast
qed

lemma reread_selection:
  assumes "set sel \<subseteq> set (read_metadata content)"
    and "list_all (\<lambda>r. case r of (pid, tx, norm) \<Rightarrow>
           dquote \<notin> set pid \<and> dquote \<notin> set tx \<and> dquote \<notin> set norm \<and> pipe \<notin> set norm) sel"
  shows "read_metadata (write_rows sel) = sel"
proof -
  have "plain_row r" if "r \<in> set sel" for r
  proof -
    obtain a b c where r: "r = (a, b, c)" by (cases r)
    have "(a, b, c) \<in> set (read_metadata content)" using that assms(1) r by auto
    from read_metadata_row [OF this] show ?thesis
      using that assms(2) by (auto simp: r plain_row_def needs_quote_set list_all_iff)
  qed
  then show ?thesis
    by (intro read_written_plain) (simp add: list_all_iff)
qed

subsection \<open>Transfers\<close>

lemma materialize_one_attempts:
  fixes env copy_only src_wavs dst_wavs r st
  defines "s \<equiv> wav src_wavs (fst r)" and "d \<equiv> wav dst_wavs (fst r)"
  defines "x \<equiv> first_attempt copy_only s d"
  defines "new \<equiv> drop (length (ops st)) (ops (materialize_one env copy_only src_wavs dst_wavs r st))"
  shows "ops (materialize_one env copy_only src_wavs dst_wavs r st) = ops st @ new"
    and "new = [] \<or> new = [x] \<or> (new = [x, Copy2 s d] \<and> env (length (ops st)) x \<noteq> None)"
    and "new \<noteq> [] \<Longrightarrow> \<not> exists_path (fs st) d"
  unfolding new_def x_def s_def d_def first_attempt_def
  by (cases rule: materialize_one_cases
        [where st = st and env = env and copy_only = copy_only and r = r
           and src_wavs = src_wavs and dst_wavs = dst_wavs]; simp)+

lemma materialize_one_ops:
  "\<exists>new. ops (materialize_one env copy_only src_wavs dst_wavs r st) = ops st @ new
     \<and> length new \<le> 2
     \<and> (copy_only \<longrightarrow> list_all (\<lambda>x. \<not> is_link x) new)
     \<and> list_all (\<lambda>x. \<not> exists_path (fs st) (op_dst x)) new"
  by (cases rule: materialize_one_cases
        [where st = st and env = env and copy_only = copy_only and r = r
           and src_wavs = src_wavs and dst_wavs = dst_wavs])
     auto

lemma materialize_ops:
  "\<exists>new. ops (materialize env copy_only src_wavs dst_wavs rs st) = ops st @ new
     \<and> length new \<le> 2 * length rs
     \<and> (copy_only \<longrightarrow> list_all (\<lambda>x. \<not> is_link x) new)
     \<and> list_all (\<lambda>x. \<not> exists_path (fs st) (op_dst x)) new"
proof (induction rs arbitrary: st)
  case Nil
  show ?case by simp
next
  case (Cons r rs)
  let ?st1 = "materialize_one env copy_only src_wavs dst_wavs r st"
  obtain n1 where n1: "ops ?st1 = ops st @ n1" "length n1 \<le> 2"
    "copy_only \<longrightarrow> list_all (\<lambda>x. \<not> is_link x) n1"
    "list_all (\<lambda>x. \<not> exists_path (fs st) (op_dst x)) n1"
    using materialize_one_ops [of env copy_only src_wavs dst_wavs r st] by blast
  obtain n2 where n2: "ops (materialize env copy_only src_wavs dst_wavs rs ?st1) = ops ?st1 @ n2"
    "length n2 \<le> 2 * length rs"
    "copy_only \<longrightarrow> list_all (\<lambda>x. \<not> is_link x) n2"
    "list_all (\<lambda>x. \<not> exists_path (fs ?st1) (op_dst x)) n2"
    using Cons.IH [of ?st1] by blast
  have "list_all (\<lambda>x. \<not> exists_path (fs st) (op_dst x)) n2"
    using n2(4) materialize_one_exists [of st _ env copy_only src_wavs dst_wavs r]
    by (auto simp: list_all_iff)
  then have "ops (materialize env copy_only src_wavs dst_wavs (r # rs) st) = ops st @ (n1 @ n2)
     \<and> length (n1 @ n2) \<le> 2 * length (r # rs)
     \<and> (copy_only \<longrightarrow> list_all (\<lambda>x. \<not> is_link x) (n1 @ n2))
     \<and> list_all (\<lambda>x. \<not> exists_path (fs st) (op_dst x)) (n1 @ n2)"
    using n1 n2 by simp
  then show ?case by blast
qed

text \<open>
  Claim C7. For one record the loop body makes no attempt, or the first attempt alone,
  or the first attempt and, the first having failed, one \<open>shutil.copy2\<close>; with the
  copy flag set no attempt is a hardlink. Over a whole run there are at most two
  attempts per selected record, and none is a hardlink when the copy flag is set.
\<close>

theorem transfer_attempts:
  "(\<exists>new. ops (materialize_one env copy_only src_wavs dst_wavs r st) = ops st @ new
       \<and> (new = []
          \<or> new = [first_attempt copy_only (wav src_wavs (fst r)) (wav dst_wavs (fst r))]
          \<or> (new = [first_attempt copy_only (wav src_wavs (fst r)) (wav dst_wavs (fst r)),
                    Copy2 (wav src_wavs (fst r)) (wav dst_wavs (fst r))]
              \<and> env (length (ops st))
                   (first_attempt copy_only (wav src_wavs (fst r)) (wav dst_wavs (fst r))) \<noteq> None))
       \<and> (copy_only \<longrightarrow> list_all (\<lambda>x. \<not> is_link x) new))
   \<and> (main g env a st = (Done, st') \<longrightarrow>
        (\<exists>new. ops st' = ops st @ new
           \<and> length new \<le> 2 * length (selected_of g a st)
           \<and> (copy a \<longrightarrow> list_all (\<lambda>x. \<not> is_link x) new)))"
proof (intro conjI impI)
  let ?new = "drop (length (ops st)) (ops (materialize_one env copy_only src_wavs dst_wavs r st))"
  let ?x = "first_attempt copy_only (wav src_wavs (fst r)) (wav dst_wavs (fst r))"
  have a: "ops (materialize_one env copy_only src_wavs dst_wavs r st) = ops st @ ?new"
    by (rule materialize_one_attempts(1))
  have b: "?new = [] \<or> ?new = [?x]
     \<or> (?new = [?x, Copy2 (wav src_wavs (fst r)) (wav dst_wavs (fst r))]
        \<and> env (length (ops st)) ?x \<noteq> None)"
    by (rule materialize_one_attempts(2))
  have c: "copy_only \<longrightarrow> list_all (\<lambda>x. \<not> is_link x) ?new"
    using b by (auto simp: first_attempt_def)
  show "\<exists>new. ops (materialize_one env copy_only src_wavs dst_wavs r st) = ops st @ new
       \<and> (new = [] \<or> new = [?x]
          \<or> (new = [?x, Copy2 (wav src_wavs (fst r)) (wav dst_wavs (fst r))]
              \<and> env (length (ops st)) ?x \<noteq> None))
       \<and> (copy_only \<longrightarrow> list_all (\<lambda>x. \<not> is_link x) new)"
    using a b c by blast
next
  assume "main g env a st = (Done, st')"
  then have st': "st' = write_output env a (n_of a st) (selected_of g a st)
          (print_line (total_line (length (rows_of a st)) (n_of a st) (seed a)) st)"
    by (rule main_Done_state)
  show "\<exists>new. ops st' = ops st @ new
           \<and> length new \<le> 2 * length (selected_of g a st)
           \<and> (copy a \<longrightarrow> list_all (\<lambda>x. \<not> is_link x) new)"
    using materialize_ops [of env "copy a" "src a @ [''wavs'']" "dst a @ [''wavs'']"
        "selected_of g a st"
        "prepared a (selected_of g a st)
           (print_line (total_line (length (rows_of a st)) (n_of a st) (seed a)) st)"]
    by (auto simp: st' write_output_ops assets_def prepared_def)
qed

lemma materialize_all_present:
  "list_all (\<lambda>r. exists_path (fs st) (wav src_wavs (fst r))
                \<and> exists_path (fs st) (wav dst_wavs (fst r))) rs \<Longrightarrow>
   materialize env copy_only src_wavs dst_wavs rs st = st"
  by (induction rs) (simp_all add: materialize_one_def Let_def)

lemma materialize_one_clean:
  "errors (materialize_one env copy_only src_wavs dst_wavs r st) = errors st \<Longrightarrow>
   exists_path (fs (materialize_one env copy_only src_wavs dst_wavs r st)) (wav src_wavs (fst r))
   \<and> exists_path (fs (materialize_one env copy_only src_wavs dst_wavs r st)) (wav dst_wavs (fst r))"
  by (cases rule: materialize_one_cases
        [where st = st and env = env and copy_only = copy_only and r = r
           and src_wavs = src_wavs and dst_wavs = dst_wavs])
     (auto simp: exists_path_def)

lemma materialize_clean:
  "errors (materialize env copy_only src_wavs dst_wavs rs st) = errors st \<Longrightarrow>
   list_all (\<lambda>r. exists_path (fs (materialize env copy_only src_wavs dst_wavs rs st)) (wav src_wavs (fst r))
                \<and> exists_path (fs (materialize env copy_only src_wavs dst_wavs rs st)) (wav dst_wavs (fst r))) rs"
proof (induction rs arbitrary: st)
  case Nil
  show ?case by simp
next
  case (Cons r rs)
  let ?st1 = "materialize_one env copy_only src_wavs dst_wavs r st"
  let ?st2 = "materialize env copy_only src_wavs dst_wavs rs ?st1"
  have "errors st \<le> errors ?st1" "errors ?st1 \<le> errors ?st2"
    by (rule materialize_one_errors, rule materialize_errors)
  with Cons.prems have e: "errors ?st1 = errors st" "errors ?st2 = errors ?st1"
    by simp_all
  have "exists_path (fs ?st2) (wav src_wavs (fst r)) \<and> exists_path (fs ?st2) (wav dst_wavs (fst r))"
    using materialize_one_clean [OF e(1)] by (simp add: materialize_exists)
  then show ?case using Cons.IH [OF e(2)] by simp
qed

lemma mkdir_parents_exists:
  "exists_path f p \<Longrightarrow> exists_path (mkdir_parents q f) p"
  by (simp add: exists_path_def mkdir_parents_def)

lemma prepared_exists:
  "exists_path (fs st) p \<Longrightarrow> exists_path (fs (prepared a sel st)) p"
  by (simp add: prepared_def exists_path_def mkdir_parents_def)

lemma main_ops:
  assumes "main g env a st = (Done, st')"
  shows "\<exists>new. ops st' = ops st @ new
     \<and> list_all (\<lambda>x. \<not> exists_path (fs st) (op_dst x)) new"
proof -
  let ?st1 = "print_line (total_line (length (rows_of a st)) (n_of a st) (seed a)) st"
  let ?p = "prepared a (selected_of g a st) ?st1"
  have st': "st' = write_output env a (n_of a st) (selected_of g a st) ?st1"
    using assms by (rule main_Done_state)
  obtain new where new: "ops (assets env a (selected_of g a st) ?st1) = ops ?p @ new"
    "list_all (\<lambda>x. \<not> exists_path (fs ?p) (op_dst x)) new"
    using materialize_ops [of env "copy a" "src a @ [''wavs'']" "dst a @ [''wavs'']"
        "selected_of g a st" ?p]
    by (auto simp: assets_def)
  have "list_all (\<lambda>x. \<not> exists_path (fs st) (op_dst x)) new"
    using new(2) prepared_exists [of ?st1 _ a "selected_of g a st"]
    by (auto simp: list_all_iff)
  moreover have "ops st' = ops st @ new"
    using new(1) by (simp add: st' write_output_ops prepared_def)
  ultimately show ?thesis by blast
qed

text \<open>
  Claim C8, amended. A record whose source asset exists and whose destination asset
  already exists is skipped: the state stays as it is. A record whose destination
  asset exists is never transferred. No transfer of a run targets a destination
  that existed when the run began (in the loop, and in a whole run of \<open>main\<close>), and
  running the loop again after a run that counted no error changes nothing.
\<close>

theorem skip_existing:
  "(exists_path (fs st) (wav src_wavs (fst r)) \<and> exists_path (fs st) (wav dst_wavs (fst r))
      \<longrightarrow> materialize_one env copy_only src_wavs dst_wavs r st = st)
   \<and> (exists_path (fs st) (wav dst_wavs (fst r))
      \<longrightarrow> ops (materialize_one env copy_only src_wavs dst_wavs r st) = ops st
          \<and> fs (materialize_one env copy_only src_wavs dst_wavs r st) = fs st)
   \<and> (\<exists>new. ops (materialize env copy_only src_wavs dst_wavs rs st) = ops st @ new
          \<and> list_all (\<lambda>x. \<not> exists_path (fs st) (op_dst x)) new)
   \<and> (errors (materialize env copy_only src_wavs dst_wavs rs st) = errors st
      \<longrightarrow> materialize env2 copy_only2 src_wavs dst_wavs rs
            (materialize env copy_only src_wavs dst_wavs rs st)
          = materialize env copy_only src_wavs dst_wavs rs st)
   \<and> (main g env a st = (Done, st')
      \<longrightarrow> (\<exists>new. ops st' = ops st @ new
             \<and> list_all (\<lambda>x. \<not> exists_path (fs st) (op_dst x)) new))"
proof (intro conjI impI)
  assume "exists_path (fs st) (wav src_wavs (fst r)) \<and> exists_path (fs st) (wav dst_wavs (fst r))"
  then show "materialize_one env copy_only src_wavs dst_wavs r st = st"
    by (simp add: materialize_one_def Let_def)
next
  assume d: "exists_path (fs st) (wav dst_wavs (fst r))"
  show "ops (materialize_one env copy_only src_wavs dst_wavs r st) = ops st"
    using d by (simp add: materialize_one_def Let_def)
  show "fs (materialize_one env copy_only src_wavs dst_wavs r st) = fs st"
    using d by (simp add: materialize_one_def Let_def)
next
  show "\<exists>new. ops (materialize env copy_only src_wavs dst_wavs rs st) = ops st @ new
          \<and> list_all (\<lambda>x. \<not> exists_path (fs st) (op_dst x)) new"
    using materialize_ops [of env copy_only src_wavs dst_wavs rs st] by blast
next
  assume "errors (materialize env copy_only src_wavs dst_wavs rs st) = errors st"
  then show "materialize env2 copy_only2 src_wavs dst_wavs rs
            (materialize env copy_only src_wavs dst_wavs rs st)
          = materialize env copy_only src_wavs dst_wavs rs st"
    by (intro materialize_all_present materialize_clean)
next
  assume "main g env a st = (Done, st')"
  then show "\<exists>new. ops st' = ops st @ new
      \<and> list_all (\<lambda>x. \<not> exists_path (fs st) (op_dst x)) new"
    by (rule main_ops)
qed

subsection \<open>The program on concrete inputs\<close>

text \<open>
  Claim C3, on a record whose text holds double quotes. The reader takes the line
  \<^verbatim>\<open>LJ001|Say "hi"|say "hi"\<close> as it is; the writer puts both texts between quotes
  and doubles the quotes inside, and \<open>read_metadata\<close> on the new file does not give
  the record back.
\<close>

theorem csv_quotes_rewritten:
  \<open>rows_of (demo_args 1 False) (state_of ''LJ001|Say "hi"|say "hi"\<newline>'')
     = [(''LJ001'', ''Say "hi"'', ''say "hi"'')]
   \<and> fst (main demo_sampler never_fails (demo_args 1 False)
            (state_of ''LJ001|Say "hi"|say "hi"\<newline>'')) = Done
   \<and> fs (snd (main demo_sampler never_fails (demo_args 1 False)
            (state_of ''LJ001|Say "hi"|say "hi"\<newline>''))) [''out'', ''metadata.csv'']
       = Some (File (''LJ001|"Say ""hi"""|"say ""hi"""'' @ [CR, LF]))
   \<and> read_metadata (''LJ001|"Say ""hi"""|"say ""hi"""'' @ [CR, LF])
       = [(''LJ001'', ''"Say ""hi"""'', ''"say ""hi"""'')]\<close>
  by code_simp



theorem count_zero_and_negative_witness:
  "is_file (fs demo_state) (src (demo_args 0 False) @ [''metadata.csv''])
   \<and> is_dir (fs demo_state) (src (demo_args 0 False) @ [''wavs''])
   \<and> rows_of (demo_args 0 False) demo_state \<noteq> []
   \<and> fst (main demo_sampler always_fails (demo_args 0 False) demo_state) = Done
   \<and> fs (snd (main demo_sampler always_fails (demo_args 0 False) demo_state))
        [''out'', ''metadata.csv''] = Some (File [])
   \<and> ops (snd (main demo_sampler always_fails (demo_args 0 False) demo_state)) = []
   \<and> main demo_sampler always_fails (demo_args (- 1) False) demo_state
       = (Abort ValueError, print_line ''Total items: 3. Selecting: -1 (seed=42)'' demo_state)"
proof -
  let ?z = "demo_args 0 False"
  let ?c = "demo_args (- 1) False"
  have f: "is_file (fs demo_state) (src ?z @ [''metadata.csv''])"
    "is_file (fs demo_state) (src ?c @ [''metadata.csv''])" by code_simp+
  have d: "is_dir (fs demo_state) (src ?z @ [''wavs''])"
    "is_dir (fs demo_state) (src ?c @ [''wavs''])" by code_simp+
  have r: "rows_of ?z demo_state \<noteq> []" "rows_of ?c demo_state \<noteq> []" by code_simp+
  have z: "count ?z = 0 \<and> demo_sampler (seed ?z) (length (rows_of ?z demo_state)) 0 = []"
    by code_simp
  have c: "count ?c < 0" by code_simp
  have l: "total_line (length (rows_of ?c demo_state)) (count ?c) (seed ?c)
      = ''Total items: 3. Selecting: -1 (seed=42)''" by code_simp
  have m: "dst ?z @ [''metadata.csv''] = [''out'', ''metadata.csv'']" "ops demo_state = []"
    by code_simp+
  note Z = count_zero_and_negative [where a = ?z and g = demo_sampler and st = demo_state
      and env = always_fails, OF f(1) d(1) r(1)]
  note C = count_zero_and_negative [where a = ?c and g = demo_sampler and st = demo_state
      and env = always_fails, OF f(2) d(2) r(2)]
  have "fst (main demo_sampler always_fails ?z demo_state) = Done
     \<and> fs (snd (main demo_sampler always_fails ?z demo_state)) [''out'', ''metadata.csv''] = Some (File [])
     \<and> ops (snd (main demo_sampler always_fails ?z demo_state)) = []"
    using Z z m by auto
  moreover have "main demo_sampler always_fails ?c demo_state
       = (Abort ValueError, print_line ''Total items: 3. Selecting: -1 (seed=42)'' demo_state)"
    using C c l by simp
  ultimately show ?thesis using f d r by blast
qed


text \<open>
  Counterexample to claim C6 as stated: an id that comes twice in the source metadata
  comes twice in the new metadata file.
\<close>

theorem unique_ids_counterexample:
  "fst (main demo_sampler never_fails (demo_args 2 False) (state_of dup_content)) = Done
   \<and> fs (snd (main demo_sampler never_fails (demo_args 2 False) (state_of dup_content)))
        [''out'', ''metadata.csv'']
       = Some (File (''a|x|y'' @ [CR, LF] @ ''a|z|w'' @ [CR, LF]))
   \<and> map fst (selected_of demo_sampler (demo_args 2 False) (state_of dup_content)) = [''a'', ''a'']
   \<and> \<not> distinct (map fst (selected_of demo_sampler (demo_args 2 False) (state_of dup_content)))"
  by code_simp

text \<open>The same holds for every generator that keeps the contract of
  \<open>random.sample\<close>: with two records and a count of two, both are selected.\<close>

lemma dup_any_sampler:
  assumes "sample_ok (g 42 2 2) 2 2"
  shows "selected_of g (demo_args 2 False) (state_of dup_content)
     = [(''a'', ''x'', ''y''), (''a'', ''z'', ''w'')]"
proof -
  let ?a = "demo_args 2 False" and ?st = "state_of dup_content"
  have rows: "rows_of ?a ?st = [(''a'', ''x'', ''y''), (''a'', ''z'', ''w'')]" by code_simp
  have len: "length (rows_of ?a ?st) = 2" by (simp add: rows)
  have c: "count ?a = 2" and s: "seed ?a = 42"
    by (simp_all add: demo_args_def)
  have n: "nat (n_of ?a ?st) = 2"
    by (simp add: n_of_def len c)
  have "sort (g 42 2 2) = [0..<2]"
    using assms by (rule sort_full_sample)
  then have "indices_of g ?a ?st = [0..<length (rows_of ?a ?st)]"
    unfolding indices_of_def n s len .
  then have "selected_of g ?a ?st = rows_of ?a ?st"
    by (simp add: selected_of_def map_nth)
  then show ?thesis by (simp add: rows)
qed

theorem unique_ids_preserved_witness:
  "distinct (map fst (rows_of (demo_args 2 False) demo_state))
   \<and> fst (main demo_sampler never_fails (demo_args 2 False) demo_state) = Done
   \<and> fs (snd (main demo_sampler never_fails (demo_args 2 False) demo_state))
        [''out'', ''metadata.csv'']
       = Some (File (write_rows (selected_of demo_sampler (demo_args 2 False) demo_state)))
   \<and> distinct (map fst (selected_of demo_sampler (demo_args 2 False) demo_state))"
proof -
  let ?a = "demo_args 2 False"
  have h1: "distinct (map fst (rows_of ?a demo_state))" by code_simp
  have h2: "sample_ok (demo_sampler (seed ?a) (length (rows_of ?a demo_state)) (nat (n_of ?a demo_state)))
           (length (rows_of ?a demo_state)) (nat (n_of ?a demo_state))" by code_simp
  have d: "fst (main demo_sampler never_fails ?a demo_state) = Done" by code_simp
  have m: "dst ?a @ [''metadata.csv''] = [''out'', ''metadata.csv'']" by code_simp
  show ?thesis
    using h1 d unique_ids_preserved [OF h1 h2 main_DoneI [OF d]] unfolding m by blast
qed

theorem transfer_attempts_witness:
  "ops (materialize_one link_fails False [''in'', ''wavs''] [''out'', ''wavs'']
          (''a'', ''x'', ''y'') demo_state)
     = [Link [''in'', ''wavs'', ''a.wav''] [''out'', ''wavs'', ''a.wav''],
        Copy2 [''in'', ''wavs'', ''a.wav''] [''out'', ''wavs'', ''a.wav'']]
   \<and> link_fails (length (ops demo_state))
        (Link [''in'', ''wavs'', ''a.wav''] [''out'', ''wavs'', ''a.wav'']) \<noteq> None
   \<and> copy (demo_args 5 True)
   \<and> fst (main demo_sampler always_fails (demo_args 5 True) demo_state) = Done
   \<and> length (ops (snd (main demo_sampler always_fails (demo_args 5 True) demo_state))) = 4
   \<and> list_all (\<lambda>x. \<not> is_link x)
        (ops (snd (main demo_sampler always_fails (demo_args 5 True) demo_state)))"
proof -
  let ?a = "demo_args 5 True"
  have o: "ops (materialize_one link_fails False [''in'', ''wavs''] [''out'', ''wavs'']
          (''a'', ''x'', ''y'') demo_state)
     = [Link [''in'', ''wavs'', ''a.wav''] [''out'', ''wavs'', ''a.wav''],
        Copy2 [''in'', ''wavs'', ''a.wav''] [''out'', ''wavs'', ''a.wav'']]" by code_simp
  have l: "link_fails (length (ops demo_state))
        (Link [''in'', ''wavs'', ''a.wav''] [''out'', ''wavs'', ''a.wav'']) \<noteq> None" by code_simp
  have c: "copy ?a" by code_simp
  have d: "fst (main demo_sampler always_fails ?a demo_state) = Done" by code_simp
  have n: "length (ops (snd (main demo_sampler always_fails ?a demo_state))) = 4" by code_simp
  have e: "ops demo_state = []" by code_simp
  have "list_all (\<lambda>x. \<not> is_link x) (ops (snd (main demo_sampler always_fails ?a demo_state)))"
    using transfer_attempts [where g = demo_sampler and env = always_fails and a = ?a
        and st = demo_state and st' = "snd (main demo_sampler always_fails ?a demo_state)"]
      main_DoneI [OF d] c e
    by auto
  then show ?thesis using o l c d n by blast
qed

text \<open>
  Counterexample to claim C8 as stated: the destination asset of \<open>b\<close> exists and its
  source is missing; the loop body prints the warning and counts an error.
\<close>

theorem skip_existing_counterexample:
  "exists_path (fs rerun_state) (wav [''out'', ''wavs''] ''b'')
   \<and> console (materialize_one never_fails False [''in'', ''wavs''] [''out'', ''wavs'']
        (''b'', ''z'', ''z'') rerun_state) = [''[WARN] Missing wav: in/wavs/b.wav'']
   \<and> errors (materialize_one never_fails False [''in'', ''wavs''] [''out'', ''wavs'']
        (''b'', ''z'', ''z'') rerun_state) = errors rerun_state + 1"
  by code_simp

theorem skip_existing_witness:
  "exists_path (fs (materialize never_fails False [''in'', ''wavs''] [''out'', ''wavs'']
       [(''a'', ''x'', ''y'')] demo_state)) (wav [''in'', ''wavs''] ''a'')
   \<and> exists_path (fs (materialize never_fails False [''in'', ''wavs''] [''out'', ''wavs'']
       [(''a'', ''x'', ''y'')] demo_state)) (wav [''out'', ''wavs''] ''a'')
   \<and> materialize_one always_fails True [''in'', ''wavs''] [''out'', ''wavs''] (''a'', ''x'', ''y'')
       (materialize never_fails False [''in'', ''wavs''] [''out'', ''wavs'']
          [(''a'', ''x'', ''y'')] demo_state)
      = materialize never_fails False [''in'', ''wavs''] [''out'', ''wavs'']
          [(''a'', ''x'', ''y'')] demo_state
   \<and> errors (materialize never_fails False [''in'', ''wavs''] [''out'', ''wavs'']
       [(''a'', ''x'', ''y'')] demo_state) = errors demo_state
   \<and> materialize always_fails True [''in'', ''wavs''] [''out'', ''wavs''] [(''a'', ''x'', ''y'')]
       (materialize never_fails False [''in'', ''wavs''] [''out'', ''wavs'']
          [(''a'', ''x'', ''y'')] demo_state)
      = materialize never_fails False [''in'', ''wavs''] [''out'', ''wavs'']
          [(''a'', ''x'', ''y'')] demo_state
   \<and> fst (main demo_sampler link_fails (demo_args 5 False)
        (snd (main demo_sampler never_fails (demo_args 5 False) demo_state))) = Done
   \<and> ops (snd (main demo_sampler link_fails (demo_args 5 False)
        (snd (main demo_sampler never_fails (demo_args 5 False) demo_state))))
      = ops (snd (main demo_sampler never_fails (demo_args 5 False) demo_state))
   \<and> list_all (\<lambda>x. \<not> exists_path
          (fs (snd (main demo_sampler never_fails (demo_args 5 False) demo_state))) (op_dst x))
        (drop (length (ops (snd (main demo_sampler never_fails (demo_args 5 False) demo_state))))
          (ops (snd (main demo_sampler link_fails (demo_args 5 False)
             (snd (main demo_sampler never_fails (demo_args 5 False) demo_state))))))"
proof -
  let ?S = "materialize never_fails False [''in'', ''wavs''] [''out'', ''wavs'']
          [(''a'', ''x'', ''y'')] demo_state"
  let ?S1 = "snd (main demo_sampler never_fails (demo_args 5 False) demo_state)"
  let ?S2 = "snd (main demo_sampler link_fails (demo_args 5 False) ?S1)"
  have r: "fst (main demo_sampler link_fails (demo_args 5 False) ?S1) = Done" by code_simp
  have o: "ops ?S2 = ops ?S1" by code_simp
  obtain new where new: "ops ?S2 = ops ?S1 @ new"
    "list_all (\<lambda>x. \<not> exists_path (fs ?S1) (op_dst x)) new"
    using skip_existing [where g = demo_sampler and env = link_fails and a = "demo_args 5 False"
        and st = ?S1 and st' = ?S2] main_DoneI [OF r]
    by blast
  have rerun: "list_all (\<lambda>x. \<not> exists_path (fs ?S1) (op_dst x))
      (drop (length (ops ?S1)) (ops ?S2))"
    using new by simp
  have s: "exists_path (fs ?S) (wav [''in'', ''wavs''] (fst (''a'', ''x'', ''y'')))"
    by code_simp
  have d: "exists_path (fs ?S) (wav [''out'', ''wavs''] (fst (''a'', ''x'', ''y'')))"
    by code_simp
  have e: "errors ?S = errors demo_state" by code_simp
  note A = skip_existing [where st = ?S and r = "(''a'', ''x'', ''y'')"
      and src_wavs = "[''in'', ''wavs'']" and dst_wavs = "[''out'', ''wavs'']"
      and env = always_fails and copy_only = True]
  note B = skip_existing [where st = demo_state and rs = "[(''a'', ''x'', ''y'')]"
      and src_wavs = "[''in'', ''wavs'']" and dst_wavs = "[''out'', ''wavs'']"
      and env = never_fails and copy_only = False and ?env2.0 = always_fails
      and ?copy_only2.0 = True]
  have "materialize_one always_fails True [''in'', ''wavs''] [''out'', ''wavs'']
      (''a'', ''x'', ''y'') ?S = ?S"
    using A s d by blast
  moreover have "materialize always_fails True [''in'', ''wavs''] [''out'', ''wavs'']
      [(''a'', ''x'', ''y'')] ?S = ?S"
    using B e by blast
  ultimately show ?thesis using s d e r o rerun by simp
qed

end
